theory Spec2Isabelle
  imports Complex_Main "HOL-Library.Multiset"
begin

section \<open>Uptime Ping: the health-check engine\<close>

text \<open>
  A shallow embedding of \<^verbatim>\<open>src/monitor.py\<close>, \<^verbatim>\<open>src/storage.py\<close> and the check cycle of
  \<^verbatim>\<open>src/main.py\<close>.

  Conventions of the embedding.
  \<^item> A Python \<^verbatim>\<open>float\<close> is the rational number it denotes (\<open>rat\<close>); the rounding error
    of IEEE arithmetic is not modelled. Comparisons of a float with an int are exact in
    Python and exact here.
  \<^item> A naive \<^verbatim>\<open>datetime\<close> is the number of microseconds since the epoch (\<open>int\<close>), a
    \<^verbatim>\<open>date\<close> is a day number. \<^verbatim>\<open>isoformat()\<close> text is identified with the instant it
    denotes: \<^verbatim>\<open>fromisoformat(isoformat(t)) = t\<close>, and the zero-padded text sorts as the
    instants do. The bounds of Python's datetime range (years 1 to 9999) are not modelled.
  \<^item> What the code reads from its environment is an argument of the model: the outcome
    of the HTTP request, the elapsed time, the value of \<^verbatim>\<open>datetime.utcnow()\<close>, the value
    of \<^verbatim>\<open>date.today()\<close>, the answer of the notifier, and the library functions
    \<^verbatim>\<open>json.dumps\<close> and \<^verbatim>\<open>json.loads\<close>.
  \<^item> Files are their text; opening, creating and writing a file always succeeds.
\<close>

subsection \<open>monitor.py: data\<close>

datatype status = UP | DOWN | DEGRADED

text \<open>\<^verbatim>\<open>Status.value\<close>: the string of each member of the enum.\<close>

fun status_value :: "status \<Rightarrow> string" where
  "status_value UP = ''up''"
| "status_value DOWN = ''down''"
| "status_value DEGRADED = ''degraded''"

record check_result =
  url :: string
  status :: status
  status_code :: "int option"
  response_time_ms :: rat
  error :: "string option"
  checked_at :: int

record endpoint =
  ep_url :: string
  name :: "string option"
  expected_status :: int
  timeout_ms :: int
  degraded_threshold_ms :: int

definition is_healthy :: "check_result \<Rightarrow> bool" where
  "is_healthy r \<longleftrightarrow> status r = UP"

text \<open>
  What \<^verbatim>\<open>await client.get(endpoint.url)\<close> does: it returns a response with a status code,
  raises \<^verbatim>\<open>httpx.TimeoutException\<close>, or raises another exception \<open>e\<close>, of which the
  code keeps \<^verbatim>\<open>str(e)\<close>.
\<close>

datatype http_outcome = Response int | TimeoutException | OtherException string

subsection \<open>Python built-ins used by the code\<close>

text \<open>\<^verbatim>\<open>str(n)\<close> of an int, as the f-string of the error message formats it.\<close>

fun str_nat :: "nat \<Rightarrow> string" where
  "str_nat n = (if n < 10 then [''0123456789'' ! n]
                else str_nat (n div 10) @ [''0123456789'' ! (n mod 10)])"

definition str_int :: "int \<Rightarrow> string" where
  "str_int i = (if i < 0 then CHR ''-'' # str_nat (nat (- i)) else str_nat (nat i))"

text \<open>
  \<^verbatim>\<open>round(x, 2)\<close>: the nearest multiple of \<open>1/100\<close>, a tie going to the even
  hundredth.
\<close>

definition round2 :: "rat \<Rightarrow> rat" where
  "round2 x =
     (let y = x * 100; f = \<lfloor>y\<rfloor>; d = y - of_int f
      in of_int (if d < 1 / 2 then f else if 1 / 2 < d then f + 1
                 else if even f then f else f + 1) / 100)"

subsection \<open>monitor.py: check\_endpoint and check\_all\<close>

text \<open>
  \<^verbatim>\<open>check_endpoint(endpoint)\<close>. The arguments after the endpoint are what the call
  observes: the outcome of the request, \<^verbatim>\<open>elapsed_ms\<close> as measured with
  \<^verbatim>\<open>time.perf_counter()\<close>, and the \<^verbatim>\<open>datetime.utcnow()\<close> that the default factory of
  \<^verbatim>\<open>checked_at\<close> reads when the result is built. The three branches are the body of the
  \<^verbatim>\<open>try\<close> and the two \<^verbatim>\<open>except\<close> clauses, in the order of the source.
\<close>

fun check_endpoint :: "endpoint \<Rightarrow> http_outcome \<Rightarrow> rat \<Rightarrow> int \<Rightarrow> check_result" where
  "check_endpoint ep (Response code) elapsed_ms now =
     (let st = (if code = expected_status ep
                then (if elapsed_ms > of_int (degraded_threshold_ms ep) then DEGRADED else UP)
                else DOWN)
      in \<lparr>url = ep_url ep,
          status = st,
          status_code = Some code,
          response_time_ms = round2 elapsed_ms,
          error = (if st \<noteq> DOWN then None
                   else Some (''Expected '' @ str_int (expected_status ep) @ '', got '' @ str_int code)),
          checked_at = now\<rparr>)"
| "check_endpoint ep TimeoutException elapsed_ms now =
     \<lparr>url = ep_url ep, status = DOWN, status_code = None,
      response_time_ms = round2 elapsed_ms, error = Some ''Timeout'', checked_at = now\<rparr>"
| "check_endpoint ep (OtherException msg) elapsed_ms now =
     \<lparr>url = ep_url ep, status = DOWN, status_code = None,
      response_time_ms = round2 elapsed_ms, error = Some msg, checked_at = now\<rparr>"

text \<open>
  \<^verbatim>\<open>check_all(endpoints)\<close>: one task per endpoint, in the order of the list, and
  \<^verbatim>\<open>asyncio.gather\<close>, which returns the results in the order of the tasks it was given.
  The probes run concurrently, so what each of them observes is its own triple (outcome,
  elapsed time, instant of the result): \<open>obs i\<close> is what the probe of the \<open>i\<close>-th
  endpoint observes. \<^verbatim>\<open>check_endpoint\<close> catches every \<^verbatim>\<open>Exception\<close>, so every task
  ends with a result.
\<close>

type_synonym observation = "http_outcome \<times> rat \<times> int"

definition check_all :: "endpoint list \<Rightarrow> (nat \<Rightarrow> observation) \<Rightarrow> check_result list" where
  "check_all endpoints obs =
     map (\<lambda>(i, ep). case obs i of (out, elapsed_ms, now) \<Rightarrow> check_endpoint ep out elapsed_ms now)
       (enumerate 0 endpoints)"

subsection \<open>storage.py: files\<close>

text \<open>
  The data directory holds two families of files, \<^verbatim>\<open>checks/<date>.jsonl\<close> and
  \<^verbatim>\<open>incidents/<date>.jsonl\<close>. A family is a map from the date in the file name to the
  text of the file; a date with no file maps to \<open>None\<close>.
\<close>

record storage =
  checks :: "int \<rightharpoonup> string"
  incidents :: "int \<rightharpoonup> string"

text \<open>
  \<^verbatim>\<open>with open(path, "a") as f: f.write(s)\<close>: the text goes to the end of the file, and a
  file that does not exist is created.
\<close>

definition append_text :: "(int \<rightharpoonup> string) \<Rightarrow> int \<Rightarrow> string \<Rightarrow> (int \<rightharpoonup> string)" where
  "append_text files d s = files(d \<mapsto> (case files d of None \<Rightarrow> [] | Some old \<Rightarrow> old) @ s)"

text \<open>
  \<^verbatim>\<open>for line in f\<close> on a file opened for reading in text mode: a line ends at
  \<^verbatim>\<open>\n\<close>, \<^verbatim>\<open>\r\n\<close> or \<^verbatim>\<open>\r\<close>, each handed over as \<^verbatim>\<open>\n\<close> at the end of the line;
  text after the last line end is a last line without one. \<open>cur\<close> is the part of the
  current line already read.
\<close>

definition after_cr :: "string \<Rightarrow> string" where
  "after_cr cs = (case cs of [] \<Rightarrow> [] | d # ds \<Rightarrow> if d = CHR 0x0A then ds else cs)"

function file_lines :: "string \<Rightarrow> string \<Rightarrow> string list" where
  "file_lines cur [] = (if cur = [] then [] else [cur])"
| "file_lines cur (c # cs) =
     (if c = CHR 0x0A then (cur @ [CHR 0x0A]) # file_lines [] cs
      else if c = CHR 0x0D then (cur @ [CHR 0x0A]) # file_lines [] (after_cr cs)
      else file_lines (cur @ [c]) cs)"
  by pat_completeness auto
termination
  by (relation "measure (\<lambda>(cur, cs). length cs)") (auto simp: after_cr_def split: list.splits)

text \<open>
  \<^verbatim>\<open>str.strip()\<close> removes white space at both ends. The white space among the characters
  of \<open>char\<close>: tab to carriage return, the four separators \<open>0x1C\<close> to \<open>0x1F\<close>, the space,
  \<open>0x85\<close> and \<open>0xA0\<close>.
\<close>

definition isspace :: "char \<Rightarrow> bool" where
  "isspace c \<longleftrightarrow>
     c \<in> set [CHR 0x09, CHR 0x0A, CHR 0x0B, CHR 0x0C, CHR 0x0D, CHR 0x1C, CHR 0x1D,
               CHR 0x1E, CHR 0x1F, CHR 0x20, CHR 0x85, CHR 0xA0]"

definition strip :: "string \<Rightarrow> string" where
  "strip s = rev (dropWhile isspace (rev (dropWhile isspace s)))"

text \<open>
  A file is complete when it is empty or ends with a line end. \<^verbatim>\<open>save_check\<close> and
  \<^verbatim>\<open>track_incident\<close> end everything they write with \<^verbatim>\<open>\n\<close>, so the files they create
  and extend stay complete.
\<close>

definition complete :: "string \<Rightarrow> bool" where
  "complete content \<longleftrightarrow> content = [] \<or> last content = CHR 0x0A"

subsection \<open>storage.py: the check log\<close>

text \<open>
  The dict that \<^verbatim>\<open>save_check\<close> writes and the load functions return, one field per key:
  \<^verbatim>\<open>url\<close>, \<^verbatim>\<open>status\<close>, \<^verbatim>\<open>status_code\<close>, \<^verbatim>\<open>response_time_ms\<close>, \<^verbatim>\<open>error\<close>,
  \<^verbatim>\<open>checked_at\<close>.
\<close>

record check_record =
  c_url :: string
  c_status :: string
  c_status_code :: "int option"
  c_response_time_ms :: rat
  c_error :: "string option"
  c_checked_at :: int

definition to_record :: "check_result \<Rightarrow> check_record" where
  "to_record result =
     \<lparr>c_url = url result,
      c_status = status_value (status result),
      c_status_code = status_code result,
      c_response_time_ms = response_time_ms result,
      c_error = error result,
      c_checked_at = checked_at result\<rparr>"

text \<open>
  \<^verbatim>\<open>save_check(result)\<close>. \<open>dumps\<close> is \<^verbatim>\<open>json.dumps(record, ensure_ascii=False)\<close> and
  \<open>today\<close> is the date that \<^verbatim>\<open>date.today()\<close> returns inside \<^verbatim>\<open>_today_file()\<close>.
\<close>

definition save_check :: "(check_record \<Rightarrow> string) \<Rightarrow> int \<Rightarrow> check_result \<Rightarrow> storage \<Rightarrow> storage" where
  "save_check dumps today result st =
     st\<lparr>checks := append_text (checks st) today (dumps (to_record result) @ [CHR 0x0A])\<rparr>"

text \<open>
  \<^verbatim>\<open>save_checks(results)\<close>: \<^verbatim>\<open>save_check\<close> for each result in turn. Every call reads
  \<^verbatim>\<open>date.today()\<close> again, so each result comes with the date that its own call reads.
\<close>

fun save_checks :: "(check_record \<Rightarrow> string) \<Rightarrow> (int \<times> check_result) list \<Rightarrow> storage \<Rightarrow> storage" where
  "save_checks dumps [] st = st"
| "save_checks dumps ((today, r) # rs) st = save_checks dumps rs (save_check dumps today r st)"

datatype exn = JSONDecodeError

text \<open>
  The loop of \<^verbatim>\<open>load_checks_for_date\<close> over the lines of the file. \<open>loads\<close> is
  \<^verbatim>\<open>json.loads\<close> followed by the reading of the six keys; \<open>None\<close> is a line it raises on,
  and the exception leaves the loop.
\<close>

fun parse_lines :: "(string \<Rightarrow> check_record option) \<Rightarrow> string list \<Rightarrow> exn + check_record list" where
  "parse_lines loads [] = Inr []"
| "parse_lines loads (line # ls) =
     (if strip line \<noteq> [] then
        (case loads line of
           None \<Rightarrow> Inl JSONDecodeError
         | Some c \<Rightarrow> (case parse_lines loads ls of Inl e \<Rightarrow> Inl e | Inr cs \<Rightarrow> Inr (c # cs)))
      else parse_lines loads ls)"

definition load_checks_for_date :: "(string \<Rightarrow> check_record option) \<Rightarrow> storage \<Rightarrow> int \<Rightarrow> exn + check_record list" where
  "load_checks_for_date loads st d =
     (case checks st d of
        None \<Rightarrow> Inr []
      | Some content \<Rightarrow> parse_lines loads (file_lines [] content))"

definition us_per_hour :: int where
  "us_per_hour = 3600000000"

definition us_per_day :: int where
  "us_per_day = 86400000000"

text \<open>\<^verbatim>\<open>datetime.date()\<close>: the day an instant lies in.\<close>

definition date_of :: "int \<Rightarrow> int" where
  "date_of t = t div us_per_day"

text \<open>
  \<^verbatim>\<open>sorted(xs, key=k, reverse=True)\<close>: descending in the key, and stable (elements with
  the same key stay in the order they had).
\<close>

definition sorted_reverse :: "('a \<Rightarrow> int) \<Rightarrow> 'a list \<Rightarrow> 'a list" where
  "sorted_reverse k xs = rev (sort_key k (rev xs))"

text \<open>
  The loop \<^verbatim>\<open>for days_ago in range(2)\<close> of \<^verbatim>\<open>load_recent_checks\<close>, with the list
  \<^verbatim>\<open>checks\<close> built so far as the accumulator \<open>acc\<close>.
\<close>

fun load_days :: "(string \<Rightarrow> check_record option) \<Rightarrow> storage \<Rightarrow> int \<Rightarrow> int \<Rightarrow>
    check_record list \<Rightarrow> nat list \<Rightarrow> exn + check_record list" where
  "load_days loads st now hours acc [] = Inr acc"
| "load_days loads st now hours acc (days_ago # rest) =
     (case load_checks_for_date loads st (date_of (now - int days_ago * us_per_day)) of
        Inl e \<Rightarrow> Inl e
      | Inr day_checks \<Rightarrow>
          (let cutoff = now - hours * us_per_hour
           in load_days loads st now hours
                (acc @ filter (\<lambda>c. c_checked_at c \<ge> cutoff) day_checks) rest))"

text \<open>\<^verbatim>\<open>load_recent_checks(hours)\<close>; \<open>now\<close> is the \<^verbatim>\<open>datetime.utcnow()\<close> it reads.\<close>

definition load_recent_checks :: "(string \<Rightarrow> check_record option) \<Rightarrow> storage \<Rightarrow> int \<Rightarrow> int \<Rightarrow>
    exn + check_record list" where
  "load_recent_checks loads st now hours =
     (case load_days loads st now hours [] [0, 1] of
        Inl e \<Rightarrow> Inl e
      | Inr found \<Rightarrow> Inr (sorted_reverse c_checked_at found))"




subsection \<open>storage.py: incident tracking\<close>

text \<open>
  The values of the global dict \<^verbatim>\<open>_incident_state\<close> (keys \<^verbatim>\<open>status\<close>, \<^verbatim>\<open>since\<close>,
  \<^verbatim>\<open>notified\<close>) and the incident dict that \<^verbatim>\<open>track_incident\<close> returns (keys \<^verbatim>\<open>url\<close>,
  \<^verbatim>\<open>prev_status\<close>, \<^verbatim>\<open>new_status\<close>, \<^verbatim>\<open>changed_at\<close>, \<^verbatim>\<open>was_down_since\<close>,
  \<^verbatim>\<open>error\<close>).
\<close>

record tracked =
  t_status :: string
  since :: int
  notified :: bool

record incident =
  i_url :: string
  prev_status :: string
  new_status :: string
  changed_at :: int
  was_down_since :: "int option"
  i_error :: "string option"

text \<open>
  \<^verbatim>\<open>track_incident(result)\<close>, with \<^verbatim>\<open>_incident_state\<close> and the files as state: it
  returns what the source returns, the new \<^verbatim>\<open>_incident_state\<close> and the new files.
  \<open>dumps\<close> is \<^verbatim>\<open>json.dumps(incident, ensure_ascii=False)\<close>, \<open>today\<close> is the
  \<^verbatim>\<open>date.today()\<close> that names the incident file.
\<close>

definition track_incident :: "(incident \<Rightarrow> string) \<Rightarrow> int \<Rightarrow> check_result \<Rightarrow>
    (string \<rightharpoonup> tracked) \<Rightarrow> storage \<Rightarrow> incident option \<times> (string \<rightharpoonup> tracked) \<times> storage" where
  "track_incident dumps today result incident_state st =
     (let u = url result; current_status = status_value (status result)
      in case incident_state u of
           None \<Rightarrow>
             (None,
              incident_state(u \<mapsto> \<lparr>t_status = current_status, since = checked_at result,
                                   notified = False\<rparr>),
              st)
         | Some prev \<Rightarrow>
             if t_status prev \<noteq> current_status then
               (let inc = \<lparr>i_url = u,
                           prev_status = t_status prev,
                           new_status = current_status,
                           changed_at = checked_at result,
                           was_down_since = (if t_status prev = ''down'' then Some (since prev) else None),
                           i_error = error result\<rparr>
                in (Some inc,
                    incident_state(u \<mapsto> \<lparr>t_status = current_status, since = checked_at result,
                                         notified = True\<rparr>),
                    st\<lparr>incidents := append_text (incidents st) today (dumps inc @ [CHR 0x0A])\<rparr>))
             else (None, incident_state, st))"

text \<open>
  A sequence of results fed to the tracker one after the other, each with the date its
  call reads: the incidents returned, in order, and the state after the last call.
\<close>

fun feed :: "(incident \<Rightarrow> string) \<Rightarrow> (int \<times> check_result) list \<Rightarrow>
    (string \<rightharpoonup> tracked) \<Rightarrow> storage \<Rightarrow> incident list \<times> (string \<rightharpoonup> tracked) \<times> storage" where
  "feed dumps [] incident_state st = ([], incident_state, st)"
| "feed dumps ((today, r) # rs) incident_state st =
     (case track_incident dumps today r incident_state st of
        (ev, incident_state', st') \<Rightarrow>
          (case feed dumps rs incident_state' st' of
             (evs, incident_state'', st'') \<Rightarrow>
               ((case ev of None \<Rightarrow> evs | Some e \<Rightarrow> e # evs), incident_state'', st'')))"

text \<open>
  Two notions of the specification, for the results of one URL in the order they were
  fed. The current unbroken run is the longest end piece of the sequence whose results
  all have the status of the last one; \<open>run_start\<close> is the instant of its first
  result. \<open>changes\<close> counts the results whose status differs from that of the result
  before.
\<close>

definition run_start :: "check_result list \<Rightarrow> int" where
  "run_start rs = checked_at (last (takeWhile (\<lambda>r. status r = status (last rs)) (rev rs)))"

definition changes :: "check_result list \<Rightarrow> nat" where
  "changes rs = length (filter (\<lambda>(a, b). status a \<noteq> status b) (zip rs (tl rs)))"

subsection \<open>main.py: the check cycle\<close>

text \<open>
  The state a check cycle works on: the files, \<^verbatim>\<open>_incident_state\<close>, and the calls of
  \<^verbatim>\<open>notify_incident\<close> made so far. A call is kept with the incident handed over, the
  files as they are at the moment of the call, and the answer of the notifier
  (\<^verbatim>\<open>send_telegram\<close> returns \<^verbatim>\<open>False\<close> when Telegram is not configured, answers with
  another status than 200, or the request raises: it catches every \<^verbatim>\<open>Exception\<close>).
\<close>

record world =
  files :: storage
  incident_state :: "string \<rightharpoonup> tracked"
  notifier_calls :: "(incident \<times> storage \<times> bool) list"

text \<open>
  The loop \<^verbatim>\<open>for result in results\<close> of \<^verbatim>\<open>run_checks\<close>: \<^verbatim>\<open>track_incident\<close>, then
  \<^verbatim>\<open>notify_incident\<close> when it returned an incident. \<open>notify\<close> is the answer of the
  notifier for an incident; \<^verbatim>\<open>run_checks\<close> does not look at it.
\<close>

fun track_and_notify :: "(incident \<Rightarrow> string) \<Rightarrow> (incident \<Rightarrow> bool) \<Rightarrow>
    (int \<times> check_result) list \<Rightarrow> world \<Rightarrow> world" where
  "track_and_notify dumps notify [] w = w"
| "track_and_notify dumps notify ((today, result) # rest) w =
     (case track_incident dumps today result (incident_state w) (files w) of
        (None, ist, st) \<Rightarrow>
          track_and_notify dumps notify rest (w\<lparr>files := st, incident_state := ist\<rparr>)
      | (Some inc, ist, st) \<Rightarrow>
          track_and_notify dumps notify rest
            (w\<lparr>files := st, incident_state := ist,
               notifier_calls := notifier_calls w @ [(inc, st, notify inc)]\<rparr>))"

text \<open>
  \<^verbatim>\<open>run_checks()\<close> for the configured \<open>endpoints\<close>. \<open>obs\<close> is what the probes observe;
  \<open>save_day i\<close> and \<open>track_day i\<close> are the dates that \<^verbatim>\<open>date.today()\<close> returns in the
  call of \<^verbatim>\<open>save_check\<close> and in the call of \<^verbatim>\<open>track_incident\<close> for the \<open>i\<close>-th
  result.
\<close>

definition run_checks :: "(check_record \<Rightarrow> string) \<Rightarrow> (incident \<Rightarrow> string) \<Rightarrow> (incident \<Rightarrow> bool) \<Rightarrow>
    endpoint list \<Rightarrow> (nat \<Rightarrow> observation) \<Rightarrow> (nat \<Rightarrow> int) \<Rightarrow> (nat \<Rightarrow> int) \<Rightarrow> world \<Rightarrow> world" where
  "run_checks dumps_check dumps_incident notify endpoints obs save_day track_day w =
     (if endpoints = [] then w
      else
        (let results = check_all endpoints obs;
             w1 = w\<lparr>files := save_checks dumps_check
                                (zip (map save_day [0..<length results]) results) (files w)\<rparr>
         in track_and_notify dumps_incident notify
              (zip (map track_day [0..<length results]) results) w1))"

text \<open>
  Two notions for the order of persistence and notification. An incident is persisted in
  the files \<open>st\<close> when an incident file ends with the line written for it. The files
  \<open>st'\<close> extend \<open>st\<close> when every incident file of \<open>st\<close> is still there in \<open>st'\<close> and
  begins with the text it had in \<open>st\<close>: nothing was removed from it and nothing in it
  was altered.
\<close>

definition persisted :: "(incident \<Rightarrow> string) \<Rightarrow> storage \<Rightarrow> incident \<Rightarrow> bool" where
  "persisted dumps st inc \<longleftrightarrow> (\<exists>d old. incidents st d = Some (old @ dumps inc @ [CHR 0x0A]))"

definition extends :: "storage \<Rightarrow> storage \<Rightarrow> bool" where
  "extends st st' \<longleftrightarrow>
     (\<forall>d content. incidents st d = Some content \<longrightarrow>
        (\<exists>more. incidents st' d = Some (content @ more)))"

subsection \<open>Example inputs\<close>

text \<open>
  The endpoint of the examples: the defaults of the \<^verbatim>\<open>Endpoint\<close> dataclass (status 200
  expected, 10 s timeout, degraded above 3000 ms).
\<close>

definition endpoint_A :: endpoint where
  "endpoint_A = \<lparr>ep_url = ''https://a.example'', name = None, expected_status = 200,
                  timeout_ms = 10000, degraded_threshold_ms = 3000\<rparr>"

definition endpoint_B :: endpoint where
  "endpoint_B = \<lparr>ep_url = ''https://b.example'', name = Some ''b'', expected_status = 200,
                  timeout_ms = 10000, degraded_threshold_ms = 3000\<rparr>"

text \<open>No file yet, a request of the example endpoint that timed out, and one it answered.\<close>

definition empty_storage :: storage where
  "empty_storage = \<lparr>checks = Map.empty, incidents = Map.empty\<rparr>"

definition timed_out :: "int \<Rightarrow> check_result" where
  "timed_out t = check_endpoint endpoint_A TimeoutException 10000 t"

definition answered :: "rat \<Rightarrow> int \<Rightarrow> check_result" where
  "answered ms t = check_endpoint endpoint_A (Response 200) ms t"

text \<open>
  A stand-in for \<^verbatim>\<open>json.dumps\<close> on incidents in the examples: one line of text for an
  incident.
\<close>

definition incident_text :: "incident \<Rightarrow> string" where
  "incident_text inc = ''{'' @ i_url inc @ '' '' @ prev_status inc @ '' '' @ new_status inc @ ''}''"

text \<open>An outage of the example endpoint and its recovery, as fed to the tracker.\<close>

definition outage :: "(int \<times> check_result) list" where
  "outage = [(0, timed_out 100), (0, timed_out 200), (0, answered 50 300), (0, answered 50 400)]"

text \<open>
  Stand-ins for \<^verbatim>\<open>json.dumps\<close> and \<^verbatim>\<open>json.loads\<close> on check records in the examples:
  one line of text for a record, and the reading of such a line back into the record
  among \<open>known\<close> that it was written for.
\<close>

definition check_text :: "check_record \<Rightarrow> string" where
  "check_text c = ''{'' @ c_url c @ '' '' @ c_status c @ '' '' @ str_int (c_checked_at c) @ ''}''"








text \<open>
  Two check cycles on the example endpoint with a notifier that always fails: in the
  first the request times out, in the second it is answered.
\<close>

definition world0 :: world where
  "world0 = \<lparr>files = empty_storage, incident_state = Map.empty, notifier_calls = []\<rparr>"

definition failing_notifier :: "incident \<Rightarrow> bool" where
  "failing_notifier inc = False"

definition after_outage :: world where
  "after_outage =
     run_checks check_text incident_text failing_notifier [endpoint_A]
       (\<lambda>i. (TimeoutException, 10000, 100)) (\<lambda>i. 0) (\<lambda>i. 0) world0"

definition after_recovery :: world where
  "after_recovery =
     run_checks check_text incident_text failing_notifier [endpoint_A]
       (\<lambda>i. (Response 200, 50, 300)) (\<lambda>i. 0) (\<lambda>i. 0) after_outage"

section \<open>The probe\<close>







text \<open>
  Claim C1. A completed response with the expected status code is classified \<open>UP\<close> when
  the elapsed time is at most the degraded threshold, and \<open>DEGRADED\<close> (not \<open>UP\<close>) when it
  is above the threshold; a request that timed out is classified \<open>DOWN\<close>, with no status
  code and the error text \<^verbatim>\<open>Timeout\<close>.
\<close>

theorem check_endpoint_classification:
  "(code = expected_status ep \<and> elapsed_ms \<le> of_int (degraded_threshold_ms ep) \<longrightarrow>
      status (check_endpoint ep (Response code) elapsed_ms now) = UP) \<and>
   (code = expected_status ep \<and> of_int (degraded_threshold_ms ep) < elapsed_ms \<longrightarrow>
      status (check_endpoint ep (Response code) elapsed_ms now) = DEGRADED \<and>
      status (check_endpoint ep (Response code) elapsed_ms now) \<noteq> UP) \<and>
   status (check_endpoint ep TimeoutException elapsed_ms now) = DOWN \<and>
   status_code (check_endpoint ep TimeoutException elapsed_ms now) = None \<and>
   error (check_endpoint ep TimeoutException elapsed_ms now) = Some ''Timeout''"
  by (simp add: Let_def)

theorem check_endpoint_classification_witness:
  "status (check_endpoint endpoint_A (Response 200) 50 0) = UP \<and>
   status (check_endpoint endpoint_A (Response 200) 5000 0) = DEGRADED \<and>
   status (check_endpoint endpoint_A TimeoutException 10000 0) = DOWN \<and>
   error (check_endpoint endpoint_A TimeoutException 10000 0) = Some ''Timeout''"
  using check_endpoint_classification [of 200 endpoint_A 50 0]
        check_endpoint_classification [of 200 endpoint_A 5000 0]
        check_endpoint_classification [of 200 endpoint_A 10000 0]
  by (simp add: endpoint_A_def)

text \<open>
  Claim C2, as stated, fails: a response with the expected status code that took longer
  than the threshold is \<open>DEGRADED\<close>, so its status is not \<open>UP\<close>, and its error is
  \<open>None\<close>.
\<close>

theorem degraded_error_counterexample:
  "\<not> (error (check_endpoint endpoint_A (Response 200) 5000 0) \<noteq> None \<longleftrightarrow>
       status (check_endpoint endpoint_A (Response 200) 5000 0) \<noteq> UP)"
  by (simp add: endpoint_A_def)

text \<open>
  Claim C2, amended. The error of a result of the probe is present if and only if the
  status is \<open>DOWN\<close>: results with status \<open>UP\<close> and \<open>DEGRADED\<close> both have the error
  \<open>None\<close>.
\<close>

theorem check_endpoint_error_iff_down:
  "(error (check_endpoint ep out elapsed_ms now) \<noteq> None) =
   (status (check_endpoint ep out elapsed_ms now) = DOWN)"
  by (cases out) (simp_all add: Let_def)

section \<open>The checker\<close>

lemma check_all_length: "length (check_all endpoints obs) = length endpoints"
  by (simp add: check_all_def)

lemma check_all_nth:
  "i < length endpoints \<Longrightarrow>
   check_all endpoints obs ! i =
     check_endpoint (endpoints ! i) (fst (obs i)) (fst (snd (obs i))) (snd (snd (obs i)))"
  by (simp add: check_all_def nth_enumerate_eq split_beta)

lemma check_endpoint_url: "url (check_endpoint ep out elapsed_ms now) = ep_url ep"
  by (cases out) (simp_all add: Let_def)

text \<open>
  Claim C10. Whatever the probes observe, \<open>check_all\<close> returns one result for each
  endpoint, and the \<open>i\<close>-th result is the result of the probe of the \<open>i\<close>-th endpoint; in
  particular it carries that endpoint's URL.
\<close>

theorem check_all_preserves_order:
  "length (check_all endpoints obs) = length endpoints \<and>
   (\<forall>i < length endpoints.
      check_all endpoints obs ! i =
        check_endpoint (endpoints ! i) (fst (obs i)) (fst (snd (obs i))) (snd (snd (obs i))) \<and>
      url (check_all endpoints obs ! i) = ep_url (endpoints ! i))"
  by (simp add: check_all_length check_all_nth check_endpoint_url)

theorem check_all_preserves_order_witness:
  "length (check_all [endpoint_A, endpoint_B]
             (\<lambda>i. if i = 0 then (Response 200, 50, 10) else (TimeoutException, 10000, 5))) = 2 \<and>
   url (check_all [endpoint_A, endpoint_B]
          (\<lambda>i. if i = 0 then (Response 200, 50, 10) else (TimeoutException, 10000, 5)) ! 0)
     = ''https://a.example'' \<and>
   status (check_all [endpoint_A, endpoint_B]
          (\<lambda>i. if i = 0 then (Response 200, 50, 10) else (TimeoutException, 10000, 5)) ! 0) = UP \<and>
   url (check_all [endpoint_A, endpoint_B]
          (\<lambda>i. if i = 0 then (Response 200, 50, 10) else (TimeoutException, 10000, 5)) ! 1)
     = ''https://b.example'' \<and>
   status (check_all [endpoint_A, endpoint_B]
          (\<lambda>i. if i = 0 then (Response 200, 50, 10) else (TimeoutException, 10000, 5)) ! 1) = DOWN"
  using check_all_preserves_order
    [of "[endpoint_A, endpoint_B]"
        "\<lambda>i. if i = 0 then (Response 200, 50, 10) else (TimeoutException, 10000, 5)"]
  by (simp add: endpoint_A_def endpoint_B_def)

section \<open>The incident tracker\<close>

lemma status_value_inj: "(status_value a = status_value b) = (a = b)"
  by (cases a; cases b) simp_all

lemma track_incident_first:
  "ist (url r) = None \<Longrightarrow>
   track_incident dumps today r ist st =
     (None, ist(url r \<mapsto> \<lparr>t_status = status_value (status r), since = checked_at r, notified = False\<rparr>), st)"
  by (simp add: track_incident_def Let_def)

lemma track_incident_same:
  "ist (url r) = Some prev \<Longrightarrow> t_status prev = status_value (status r) \<Longrightarrow>
   track_incident dumps today r ist st = (None, ist, st)"
  by (simp add: track_incident_def Let_def)

lemma track_incident_change:
  "ist (url r) = Some prev \<Longrightarrow> t_status prev \<noteq> status_value (status r) \<Longrightarrow>
   track_incident dumps today r ist st =
     (Some \<lparr>i_url = url r, prev_status = t_status prev, new_status = status_value (status r),
            changed_at = checked_at r,
            was_down_since = (if t_status prev = ''down'' then Some (since prev) else None),
            i_error = error r\<rparr>,
      ist(url r \<mapsto> \<lparr>t_status = status_value (status r), since = checked_at r, notified = True\<rparr>),
      st\<lparr>incidents := append_text (incidents st) today
        (dumps \<lparr>i_url = url r, prev_status = t_status prev, new_status = status_value (status r),
            changed_at = checked_at r,
            was_down_since = (if t_status prev = ''down'' then Some (since prev) else None),
            i_error = error r\<rparr> @ [CHR 0x0A])\<rparr>)"
  by (simp add: track_incident_def Let_def)

lemma track_incident_other:
  "u \<noteq> url r \<Longrightarrow> track_incident dumps today r ist st = (ev, ist', st') \<Longrightarrow> ist' u = ist u"
  by (auto simp: track_incident_def Let_def split: option.splits if_splits)

lemma track_incident_event_url:
  "track_incident dumps today r ist st = (Some e, ist', st') \<Longrightarrow> i_url e = url r"
  by (auto simp: track_incident_def Let_def split: option.splits if_splits)

lemma feed_snoc:
  "feed dumps (rs @ [(today, r)]) ist st =
     (case feed dumps rs ist st of
        (evs, ist1, st1) \<Rightarrow>
          (case track_incident dumps today r ist1 st1 of
             (ev, ist2, st2) \<Rightarrow> (evs @ (case ev of None \<Rightarrow> [] | Some e \<Rightarrow> [e]), ist2, st2)))"
  by (induction rs arbitrary: ist st) (auto split: prod.splits option.splits)

lemma run_start_single: "run_start [r] = checked_at r"
  by (simp add: run_start_def)

lemma run_start_snoc:
  "rs \<noteq> [] \<Longrightarrow>
   run_start (rs @ [r]) = (if status r = status (last rs) then run_start rs else checked_at r)"
  by (cases rs rule: rev_cases) (auto simp: run_start_def)

lemma zip_tl_snoc:
  "zip (xs @ [x]) (tl (xs @ [x])) = zip xs (tl xs) @ (if xs = [] then [] else [(last xs, x)])"
proof (induction xs)
  case Nil
  then show ?case by simp
next
  case (Cons a xs)
  then show ?case by (cases xs) auto
qed

lemma changes_snoc:
  "changes (rs @ [r]) = changes rs + (if rs \<noteq> [] \<and> status (last rs) \<noteq> status r then 1 else 0)"
  unfolding changes_def zip_tl_snoc by simp

lemma feed_run:
  assumes "ist u = None"
    and "feed dumps rs ist st = (evs, ist', st')"
  shows "ist' u =
           (if filter (\<lambda>r. url r = u) (map snd rs) = [] then None
            else Some \<lparr>t_status = status_value (status (last (filter (\<lambda>r. url r = u) (map snd rs)))),
                       since = run_start (filter (\<lambda>r. url r = u) (map snd rs)),
                       notified = (0 < changes (filter (\<lambda>r. url r = u) (map snd rs)))\<rparr>) \<and>
         length (filter (\<lambda>e. i_url e = u) evs) = changes (filter (\<lambda>r. url r = u) (map snd rs))"
  using assms(2)
proof (induction rs arbitrary: evs ist' st' rule: rev_induct)
  case Nil
  then show ?case using assms(1) by (simp add: changes_def)
next
  case (snoc x rs)
  obtain today r where x: "x = (today, r)" by (cases x)
  obtain evs1 ist1 st1 where f1: "feed dumps rs ist st = (evs1, ist1, st1)"
    by (cases "feed dumps rs ist st")
  obtain ev ist2 st2 where t: "track_incident dumps today r ist1 st1 = (ev, ist2, st2)"
    by (cases "track_incident dumps today r ist1 st1")
  from snoc.prems x f1 t have res: "evs = evs1 @ (case ev of None \<Rightarrow> [] | Some e \<Rightarrow> [e])"
    "ist' = ist2" "st' = st2"
    by (simp_all add: feed_snoc)
  let ?rs = "filter (\<lambda>r. url r = u) (map snd rs)"
  note IH = snoc.IH [OF f1]
  show ?case
  proof (cases "url r = u")
    case False
    then have "ist2 u = ist1 u" using track_incident_other [of u r dumps today ist1 st1 ev ist2 st2] t by simp
    moreover have "filter (\<lambda>e. i_url e = u) evs = filter (\<lambda>e. i_url e = u) evs1"
      using res(1) False track_incident_event_url [of dumps today r ist1 st1 _ ist2 st2] t
      by (cases ev) auto
    ultimately show ?thesis using IH False x res by simp
  next
    case True
    show ?thesis
    proof (cases "?rs = []")
      case Nil: True
      then have "ist1 (url r) = None" using IH True by simp
      with track_incident_first [of ist1 r dumps today st1] t
      have "ev = None" "ist2 (url r) = Some \<lparr>t_status = status_value (status r), since = checked_at r, notified = False\<rparr>"
        by simp_all
      then show ?thesis using IH True x res Nil by (simp add: run_start_single changes_def)
    next
      case False
      let ?prev = "\<lparr>t_status = status_value (status (last ?rs)), since = run_start ?rs,
                     notified = (0 < changes ?rs)\<rparr>"
      have p: "ist1 (url r) = Some ?prev" using IH True False by simp
      show ?thesis
      proof (cases "status (last ?rs) = status r")
        case same: True
        then have "t_status ?prev = status_value (status r)" by simp
        with track_incident_same [of ist1 r ?prev dumps today st1] p t
        have "ev = None" "ist2 = ist1" by simp_all
        then show ?thesis using IH True x res False same p
          by (simp add: run_start_snoc changes_snoc)
      next
        case diff: False
        then have "t_status ?prev \<noteq> status_value (status r)" by (simp add: status_value_inj)
        with track_incident_change [of ist1 r ?prev dumps today st1] p t
        have "\<exists>e. ev = Some e \<and> i_url e = url r"
          "ist2 (url r) = Some \<lparr>t_status = status_value (status r), since = checked_at r, notified = True\<rparr>"
          by auto
        then show ?thesis using IH True x res False diff
          by (auto simp add: run_start_snoc changes_snoc)
      qed
    qed
  qed
qed

lemma was_down_since_run_start:
  assumes "ist0 (url r) = None"
    and "feed dumps rs ist0 st0 = (evs, ist, st)"
    and "track_incident dumps today r ist st = (Some inc, ist', st')"
  shows "was_down_since inc =
           (if prev_status inc = ''down''
            then Some (run_start (filter (\<lambda>x. url x = url r) (map snd rs))) else None)"
proof -
  let ?rs = "filter (\<lambda>x. url x = url r) (map snd rs)"
  from feed_run [OF assms(1,2)]
  have ist: "ist (url r) =
      (if ?rs = [] then None
       else Some \<lparr>t_status = status_value (status (last ?rs)), since = run_start ?rs,
                  notified = (0 < changes ?rs)\<rparr>)"
    by simp
  from assms(3) obtain prev where prev: "ist (url r) = Some prev"
    "prev_status inc = t_status prev"
    "was_down_since inc = (if t_status prev = ''down'' then Some (since prev) else None)"
    by (auto simp: track_incident_def Let_def split: option.splits if_splits)
  from ist prev(1) have "since prev = run_start ?rs"
    by (auto split: if_splits)
  with prev show ?thesis by simp
qed

lemma two_timeouts_fed:
  "feed incident_text [(0, timed_out 100), (0, timed_out 200)] Map.empty empty_storage =
     ([], [''https://a.example'' \<mapsto> \<lparr>t_status = ''down'', since = 100, notified = False\<rparr>],
      empty_storage)"
  by (simp add: track_incident_def Let_def timed_out_def endpoint_A_def)

lemma outage_results:
  "filter (\<lambda>r. url r = ''https://a.example'') (map snd outage) =
     [timed_out 100, timed_out 200, answered 50 300, answered 50 400]"
  by (simp add: outage_def timed_out_def answered_def endpoint_A_def)

lemma outage_run_start:
  "run_start [timed_out 100, timed_out 200, answered 50 300, answered 50 400] = 300"
  by (simp add: run_start_def timed_out_def answered_def endpoint_A_def)

lemma outage_changes:
  "changes [timed_out 100, timed_out 200, answered 50 300, answered 50 400] = 1"
  by (simp add: changes_def timed_out_def answered_def endpoint_A_def)

text \<open>
  Claim C3. \<open>track_incident\<close> on a result \<open>r\<close>: when the URL of \<open>r\<close> is not tracked yet, no
  event is returned and the URL is tracked with the status of \<open>r\<close> since the timestamp of
  \<open>r\<close>; when the tracked status is the status of \<open>r\<close>, no event is returned and nothing
  changes, neither the tracked state nor the files; when the tracked status differs, one
  event is returned and written to the incident file, and the tracked state becomes the
  status of \<open>r\<close> since the timestamp of \<open>r\<close>. Hence, after any sequence of results fed
  to a tracker that did not know the URL \<open>u\<close>, the tracked status of \<open>u\<close> is the status of
  its last result, \<open>since\<close> is the start of the current unbroken run of that status, and
  the number of events for \<open>u\<close> is the number of its status changes.
\<close>

theorem track_incident_transitions:
  "(ist (url r) = None \<longrightarrow>
      track_incident dumps today r ist st =
        (None,
         ist(url r \<mapsto> \<lparr>t_status = status_value (status r), since = checked_at r, notified = False\<rparr>),
         st)) \<and>
   (\<forall>prev. ist (url r) = Some prev \<and> t_status prev = status_value (status r) \<longrightarrow>
      track_incident dumps today r ist st = (None, ist, st)) \<and>
   (\<forall>prev. ist (url r) = Some prev \<and> t_status prev \<noteq> status_value (status r) \<longrightarrow>
      (\<exists>inc. track_incident dumps today r ist st =
         (Some inc,
          ist(url r \<mapsto> \<lparr>t_status = status_value (status r), since = checked_at r, notified = True\<rparr>),
          st\<lparr>incidents := append_text (incidents st) today (dumps inc @ [CHR 0x0A])\<rparr>) \<and>
         i_url inc = url r \<and> prev_status inc = t_status prev \<and>
         new_status inc = status_value (status r) \<and> changed_at inc = checked_at r \<and>
         i_error inc = error r)) \<and>
   (ist0 u = None \<and> feed dumps rs ist0 st0 = (evs, ist', st') \<and>
    filter (\<lambda>r. url r = u) (map snd rs) \<noteq> [] \<longrightarrow>
      ist' u = Some \<lparr>t_status = status_value (status (last (filter (\<lambda>r. url r = u) (map snd rs)))),
                      since = run_start (filter (\<lambda>r. url r = u) (map snd rs)),
                      notified = (0 < changes (filter (\<lambda>r. url r = u) (map snd rs)))\<rparr> \<and>
      length (filter (\<lambda>e. i_url e = u) evs) = changes (filter (\<lambda>r. url r = u) (map snd rs)))"
proof (intro conjI allI impI)
  assume "ist (url r) = None"
  then show "track_incident dumps today r ist st =
        (None,
         ist(url r \<mapsto> \<lparr>t_status = status_value (status r), since = checked_at r, notified = False\<rparr>),
         st)"
    by (rule track_incident_first)
next
  fix prev
  assume "ist (url r) = Some prev \<and> t_status prev = status_value (status r)"
  then show "track_incident dumps today r ist st = (None, ist, st)"
    by (simp add: track_incident_same)
next
  fix prev
  assume "ist (url r) = Some prev \<and> t_status prev \<noteq> status_value (status r)"
  then show "\<exists>inc. track_incident dumps today r ist st =
         (Some inc,
          ist(url r \<mapsto> \<lparr>t_status = status_value (status r), since = checked_at r, notified = True\<rparr>),
          st\<lparr>incidents := append_text (incidents st) today (dumps inc @ [CHR 0x0A])\<rparr>) \<and>
         i_url inc = url r \<and> prev_status inc = t_status prev \<and>
         new_status inc = status_value (status r) \<and> changed_at inc = checked_at r \<and>
         i_error inc = error r"
    by (simp add: track_incident_change)
next
  assume a: "ist0 u = None \<and> feed dumps rs ist0 st0 = (evs, ist', st') \<and>
    filter (\<lambda>r. url r = u) (map snd rs) \<noteq> []"
  then show "ist' u = Some \<lparr>t_status = status_value (status (last (filter (\<lambda>r. url r = u) (map snd rs)))),
                      since = run_start (filter (\<lambda>r. url r = u) (map snd rs)),
                      notified = (0 < changes (filter (\<lambda>r. url r = u) (map snd rs)))\<rparr>"
    using feed_run [of ist0 u dumps rs st0 evs ist' st'] by simp
  from a show "length (filter (\<lambda>e. i_url e = u) evs) = changes (filter (\<lambda>r. url r = u) (map snd rs))"
    using feed_run [of ist0 u dumps rs st0 evs ist' st'] by simp
qed

theorem track_incident_transitions_witness:
  "track_incident incident_text 0 (timed_out 100) Map.empty empty_storage =
     (None, [''https://a.example'' \<mapsto> \<lparr>t_status = ''down'', since = 100, notified = False\<rparr>],
      empty_storage) \<and>
   track_incident incident_text 0 (timed_out 200)
       [''https://a.example'' \<mapsto> \<lparr>t_status = ''down'', since = 100, notified = False\<rparr>] empty_storage =
     (None, [''https://a.example'' \<mapsto> \<lparr>t_status = ''down'', since = 100, notified = False\<rparr>],
      empty_storage) \<and>
   (\<exists>inc. track_incident incident_text 0 (answered 50 300)
       [''https://a.example'' \<mapsto> \<lparr>t_status = ''down'', since = 100, notified = False\<rparr>] empty_storage =
     (Some inc, [''https://a.example'' \<mapsto> \<lparr>t_status = ''up'', since = 300, notified = True\<rparr>],
      empty_storage\<lparr>incidents := [0 \<mapsto> incident_text inc @ [CHR 0x0A]]\<rparr>) \<and>
     prev_status inc = ''down'' \<and> new_status inc = ''up'' \<and> changed_at inc = 300) \<and>
   fst (snd (feed incident_text outage Map.empty empty_storage)) ''https://a.example'' =
     Some \<lparr>t_status = ''up'', since = 300, notified = True\<rparr> \<and>
   length (filter (\<lambda>e. i_url e = ''https://a.example'') (fst (feed incident_text outage Map.empty empty_storage))) = 1"
proof -
  let ?down = "[''https://a.example'' \<mapsto> \<lparr>t_status = ''down'', since = 100, notified = False\<rparr>]"
  have first: "track_incident incident_text 0 (timed_out 100) Map.empty empty_storage =
     (None, ?down, empty_storage)"
    using track_incident_transitions [where ist = Map.empty and r = "timed_out 100"
        and dumps = incident_text and today = 0 and st = empty_storage]
    by (simp add: timed_out_def endpoint_A_def)
  have same: "track_incident incident_text 0 (timed_out 200) ?down empty_storage =
     (None, ?down, empty_storage)"
    using track_incident_transitions [where ist = ?down and r = "timed_out 200"
        and dumps = incident_text and today = 0 and st = empty_storage]
    by (simp add: timed_out_def endpoint_A_def)
  have change: "\<exists>inc. track_incident incident_text 0 (answered 50 300) ?down empty_storage =
     (Some inc, [''https://a.example'' \<mapsto> \<lparr>t_status = ''up'', since = 300, notified = True\<rparr>],
      empty_storage\<lparr>incidents := [0 \<mapsto> incident_text inc @ [CHR 0x0A]]\<rparr>) \<and>
     prev_status inc = ''down'' \<and> new_status inc = ''up'' \<and> changed_at inc = 300"
  proof -
    have u: "url (answered 50 300) = ''https://a.example''"
      "status_value (status (answered 50 300)) = ''up''" "checked_at (answered 50 300) = 300"
      by (simp_all add: answered_def endpoint_A_def)
    from track_incident_transitions [THEN conjunct2, THEN conjunct2, THEN conjunct1, rule_format,
        where ist = ?down and r = "answered 50 300" and dumps = incident_text and today = 0
          and st = empty_storage
          and prev = "\<lparr>t_status = ''down'', since = 100, notified = False\<rparr>"]
    obtain inc where "track_incident incident_text 0 (answered 50 300) ?down empty_storage =
         (Some inc,
          ?down(url (answered 50 300) \<mapsto> \<lparr>t_status = status_value (status (answered 50 300)),
             since = checked_at (answered 50 300), notified = True\<rparr>),
          empty_storage\<lparr>incidents := append_text (incidents empty_storage) 0 (incident_text inc @ [CHR 0x0A])\<rparr>)"
       "prev_status inc = ''down''" "new_status inc = ''up''" "changed_at inc = 300"
      unfolding u by auto
    then show ?thesis
      unfolding u by (intro exI [of _ inc]) (simp add: empty_storage_def append_text_def)
  qed
  have run: "fst (snd (feed incident_text outage Map.empty empty_storage)) ''https://a.example'' =
     Some \<lparr>t_status = ''up'', since = 300, notified = True\<rparr> \<and>
   length (filter (\<lambda>e. i_url e = ''https://a.example'') (fst (feed incident_text outage Map.empty empty_storage))) = 1"
    using track_incident_transitions [where ?ist0.0 = Map.empty and u = "''https://a.example''"
        and dumps = incident_text and rs = outage and ?st0.0 = empty_storage
        and evs = "fst (feed incident_text outage Map.empty empty_storage)"
        and ist' = "fst (snd (feed incident_text outage Map.empty empty_storage))"
        and st' = "snd (snd (feed incident_text outage Map.empty empty_storage))"]
    by (simp add: outage_results outage_run_start outage_changes)
       (simp add: answered_def endpoint_A_def)
  from first same change run show ?thesis by blast
qed

text \<open>
  Claim C4, as stated, fails: the transition from \<open>down\<close> to \<open>degraded\<close> is not a
  transition into \<open>up\<close>, and its event carries the timestamp since which the endpoint was
  down.
\<close>

theorem recovery_only_counterexample:
  "fst (feed incident_text [(0, timed_out 100), (0, answered 5000 200)] Map.empty empty_storage) =
     [\<lparr>i_url = ''https://a.example'', prev_status = ''down'', new_status = ''degraded'',
       changed_at = 200, was_down_since = Some 100, i_error = None\<rparr>]"
  by (simp add: timed_out_def answered_def endpoint_A_def track_incident_def Let_def
      empty_storage_def)

text \<open>
  Claim C4, amended. An event is returned only for a tracked URL whose tracked status
  differs from the status of the result. Its \<open>was_down_since\<close> is present exactly when
  the previous status is \<open>down\<close>, whatever the new status (\<open>up\<close> or \<open>degraded\<close>), and is
  then the \<open>since\<close> tracked for that \<open>down\<close> state; for a previous status \<open>up\<close> or
  \<open>degraded\<close> it is \<open>None\<close>. When the tracker has been fed a sequence of results from
  a state in which the URL was not tracked, that \<open>since\<close> is the timestamp of the first
  result of the unbroken run of \<open>down\<close> results that the transition ends.
\<close>

theorem was_down_since_iff_prev_down:
  assumes "track_incident dumps today r ist st = (Some inc, ist', st')"
  shows "(\<exists>prev. ist (url r) = Some prev \<and>
           prev_status inc = t_status prev \<and> new_status inc = status_value (status r) \<and>
           prev_status inc \<noteq> new_status inc \<and>
           (was_down_since inc \<noteq> None) = (prev_status inc = ''down'') \<and>
           was_down_since inc = (if prev_status inc = ''down'' then Some (since prev) else None)) \<and>
         (\<forall>rs ist0 st0 evs. ist0 (url r) = None \<and> feed dumps rs ist0 st0 = (evs, ist, st) \<longrightarrow>
            was_down_since inc =
              (if prev_status inc = ''down''
               then Some (run_start (filter (\<lambda>x. url x = url r) (map snd rs))) else None))"
proof
  show "\<exists>prev. ist (url r) = Some prev \<and>
           prev_status inc = t_status prev \<and> new_status inc = status_value (status r) \<and>
           prev_status inc \<noteq> new_status inc \<and>
           (was_down_since inc \<noteq> None) = (prev_status inc = ''down'') \<and>
           was_down_since inc = (if prev_status inc = ''down'' then Some (since prev) else None)"
    using assms by (auto simp: track_incident_def Let_def split: option.splits if_splits)
  show "\<forall>rs ist0 st0 evs. ist0 (url r) = None \<and> feed dumps rs ist0 st0 = (evs, ist, st) \<longrightarrow>
            was_down_since inc =
              (if prev_status inc = ''down''
               then Some (run_start (filter (\<lambda>x. url x = url r) (map snd rs))) else None)"
    using assms by (blast intro: was_down_since_run_start)
qed

theorem was_down_since_iff_prev_down_witness:
  "(\<exists>inc. fst (track_incident incident_text 0 (answered 50 300)
       [''https://a.example'' \<mapsto> \<lparr>t_status = ''down'', since = 100, notified = False\<rparr>] empty_storage) = Some inc \<and>
     prev_status inc = ''down'' \<and> new_status inc = ''up'' \<and> was_down_since inc = Some 100 \<and>
     was_down_since inc = Some (run_start [timed_out 100, timed_out 200])) \<and>
   (\<exists>inc. fst (track_incident incident_text 0 (answered 5000 300)
       [''https://a.example'' \<mapsto> \<lparr>t_status = ''down'', since = 100, notified = False\<rparr>] empty_storage) = Some inc \<and>
     prev_status inc = ''down'' \<and> new_status inc = ''degraded'' \<and> was_down_since inc = Some 100) \<and>
   (\<exists>inc. fst (track_incident incident_text 0 (answered 50 300)
       [''https://a.example'' \<mapsto> \<lparr>t_status = ''degraded'', since = 100, notified = False\<rparr>] empty_storage) = Some inc \<and>
     prev_status inc = ''degraded'' \<and> new_status inc = ''up'' \<and> was_down_since inc = None)"
proof -
  let ?down = "[''https://a.example'' \<mapsto> \<lparr>t_status = ''down'', since = 100, notified = False\<rparr>]"
  let ?slow = "[''https://a.example'' \<mapsto> \<lparr>t_status = ''degraded'', since = 100, notified = False\<rparr>]"
  have u: "url (answered 50 300) = ''https://a.example''" "url (answered 5000 300) = ''https://a.example''"
    "status_value (status (answered 50 300)) = ''up''"
    "status_value (status (answered 5000 300)) = ''degraded''"
    by (simp_all add: answered_def endpoint_A_def)
  have rs: "filter (\<lambda>x. url x = ''https://a.example'') (map snd [(0::int, timed_out 100), (0, timed_out 200)]) =
      [timed_out 100, timed_out 200]"
    by (simp add: timed_out_def endpoint_A_def)
  obtain inc1 ist1 st1 where t1:
    "track_incident incident_text 0 (answered 50 300) ?down empty_storage = (Some inc1, ist1, st1)"
    by (simp add: track_incident_def Let_def answered_def endpoint_A_def)
  obtain inc2 ist2 st2 where t2:
    "track_incident incident_text 0 (answered 5000 300) ?down empty_storage = (Some inc2, ist2, st2)"
    by (simp add: track_incident_def Let_def answered_def endpoint_A_def)
  obtain inc3 ist3 st3 where t3:
    "track_incident incident_text 0 (answered 50 300) ?slow empty_storage = (Some inc3, ist3, st3)"
    by (simp add: track_incident_def Let_def answered_def endpoint_A_def)
  note w1 = was_down_since_iff_prev_down [OF t1]
  from w1 [THEN conjunct1]
  have a: "prev_status inc1 = ''down'' \<and> new_status inc1 = ''up'' \<and> was_down_since inc1 = Some 100"
    by (auto simp: u)
  have h1: "Map.empty (url (answered 50 300)) = None"
    by simp
  from w1 [THEN conjunct2, rule_format, OF conjI [OF h1 two_timeouts_fed]]
  have b: "was_down_since inc1 = Some (run_start [timed_out 100, timed_out 200])"
    unfolding u rs using a by simp
  from was_down_since_iff_prev_down [OF t2, THEN conjunct1]
  have c: "prev_status inc2 = ''down'' \<and> new_status inc2 = ''degraded'' \<and> was_down_since inc2 = Some 100"
    by (auto simp: u)
  from was_down_since_iff_prev_down [OF t3, THEN conjunct1]
  have d: "prev_status inc3 = ''degraded'' \<and> new_status inc3 = ''up'' \<and> was_down_since inc3 = None"
    by (auto simp: u)
  from a b c d t1 t2 t3 show ?thesis by simp
qed

section \<open>Text files\<close>

lemma file_lines_line:
  "CHR 0x0A \<notin> set line \<Longrightarrow> CHR 0x0D \<notin> set line \<Longrightarrow>
   file_lines cur (line @ [CHR 0x0A]) = [cur @ line @ [CHR 0x0A]]"
  by (induction line arbitrary: cur) auto

lemma file_lines_append:
  "xs \<noteq> [] \<Longrightarrow> last xs = CHR 0x0A \<Longrightarrow>
   file_lines cur (xs @ ys) = file_lines cur xs @ file_lines [] ys"
proof (induction cur xs rule: file_lines.induct)
  case (1 cur)
  then show ?case by simp
next
  case (2 cur c cs)
  show ?case
  proof (cases "cs = []")
    case True
    with 2 show ?thesis by simp
  next
    case False
    then obtain d ds where cs: "cs = d # ds" by (cases cs) auto
    show ?thesis
    proof (cases "c = CHR 0x0D \<and> d = CHR 0x0A \<and> ds = []")
      case True
      then show ?thesis using cs by (simp add: after_cr_def)
    next
      case False
      then have "c = CHR 0x0D \<Longrightarrow> after_cr cs \<noteq> [] \<and> last (after_cr cs) = CHR 0x0A"
        using cs "2.prems" by (auto simp: after_cr_def)
      moreover have "after_cr (cs @ ys) = after_cr cs @ ys"
        using cs by (simp add: after_cr_def)
      ultimately show ?thesis using 2 \<open>cs \<noteq> []\<close> by simp
    qed
  qed
qed

lemma file_lines_new_line:
  assumes "content = [] \<or> last content = CHR 0x0A"
    and "CHR 0x0A \<notin> set line" and "CHR 0x0D \<notin> set line"
  shows "file_lines [] (content @ line @ [CHR 0x0A]) = file_lines [] content @ [line @ [CHR 0x0A]]"
proof (cases "content = []")
  case True
  then show ?thesis using assms by (simp add: file_lines_line)
next
  case False
  then show ?thesis using assms by (simp add: file_lines_append file_lines_line)
qed

lemma strip_empty_iff: "strip s = [] \<longleftrightarrow> (\<forall>c \<in> set s. isspace c)"
proof -
  have "(\<forall>c \<in> set (dropWhile isspace s). isspace c) \<longleftrightarrow> (\<forall>c \<in> set s. isspace c)"
  proof
    assume "\<forall>c \<in> set (dropWhile isspace s). isspace c"
    then have "dropWhile isspace s = []"
      using hd_dropWhile [of isspace s] by (cases "dropWhile isspace s") auto
    then show "\<forall>c \<in> set s. isspace c"
      by (simp add: dropWhile_eq_Nil_conv)
  next
    assume "\<forall>c \<in> set s. isspace c"
    then show "\<forall>c \<in> set (dropWhile isspace s). isspace c"
      by (auto dest: set_dropWhileD)
  qed
  then show ?thesis
    by (simp add: strip_def dropWhile_eq_Nil_conv)
qed

lemma parse_lines_snoc:
  "parse_lines loads (ls @ [l]) =
     (case parse_lines loads ls of
        Inl e \<Rightarrow> Inl e
      | Inr cs \<Rightarrow>
          if strip l \<noteq> [] then
            (case loads l of None \<Rightarrow> Inl JSONDecodeError | Some c \<Rightarrow> Inr (cs @ [c]))
          else Inr cs)"
  by (induction ls) (auto split: sum.splits option.splits)

section \<open>The check store\<close>

subsection \<open>Writing\<close>

lemma save_check_checks:
  "checks (save_check dumps today r st) d =
     (if d = today
      then Some ((case checks st today of None \<Rightarrow> [] | Some old \<Rightarrow> old) @ dumps (to_record r) @ [CHR 0x0A])
      else checks st d)"
  by (simp add: save_check_def append_text_def)

lemma save_check_incidents: "incidents (save_check dumps today r st) = incidents st"
  by (simp add: save_check_def)

lemma save_check_complete:
  "(\<And>content. checks st d = Some content \<Longrightarrow> complete content) \<Longrightarrow>
   checks (save_check dumps today r st) d = Some content' \<Longrightarrow> complete content'"
  by (auto simp: save_check_checks complete_def split: if_splits)

lemma save_checks_incidents: "incidents (save_checks dumps writes st) = incidents st"
  by (induction writes arbitrary: st) (auto simp: save_check_incidents)

lemma save_checks_checks:
  "checks (save_checks dumps writes st) d =
     (if d \<in> fst ` set writes
      then Some ((case checks st d of None \<Rightarrow> [] | Some old \<Rightarrow> old) @
                 concat (map (\<lambda>(today, r). dumps (to_record r) @ [CHR 0x0A])
                           (filter (\<lambda>(today, r). today = d) writes)))
      else checks st d)"
proof (induction writes arbitrary: st)
  case Nil
  then show ?case by simp
next
  case (Cons w writes)
  obtain today r where w: "w = (today, r)" by (cases w)
  show ?case
  proof (cases "today = d")
    case True
    then show ?thesis
      unfolding w by (force simp add: Cons.IH save_check_checks split: option.splits)
  next
    case False
    then show ?thesis
      unfolding w by (simp add: Cons.IH save_check_checks)
  qed
qed

lemma save_checks_complete:
  "(\<forall>content. checks st d = Some content \<longrightarrow> complete content) \<Longrightarrow>
   \<forall>content. checks (save_checks dumps writes st) d = Some content \<longrightarrow> complete content"
proof (induction writes arbitrary: st)
  case Nil
  then show ?case by simp
next
  case (Cons w writes)
  obtain today r where w: "w = (today, r)" by (cases w)
  have "\<forall>content. checks (save_check dumps today r st) d = Some content \<longrightarrow> complete content"
    using Cons.prems save_check_complete [of st d dumps today r] by blast
  then show ?case unfolding w by (simp add: Cons.IH)
qed

subsection \<open>Reading back what was written\<close>

lemma load_checks_after_save:
  assumes old: "load_checks_for_date loads st today = Inr old"
    and wf: "\<forall>content. checks st today = Some content \<longrightarrow> complete content"
    and codec: "loads (dumps (to_record r) @ [CHR 0x0A]) = Some (to_record r)"
    and lf: "CHR 0x0A \<notin> set (dumps (to_record r))"
    and cr: "CHR 0x0D \<notin> set (dumps (to_record r))"
    and nonblank: "\<exists>c \<in> set (dumps (to_record r)). \<not> isspace c"
  shows "load_checks_for_date loads (save_check dumps today r st) today = Inr (old @ [to_record r])"
proof -
  let ?line = "dumps (to_record r) @ [CHR 0x0A]"
  define content where "content = (case checks st today of None \<Rightarrow> [] | Some c \<Rightarrow> c)"
  have c: "complete content"
    using wf by (auto simp: content_def complete_def split: option.splits)
  have before: "parse_lines loads (file_lines [] content) = Inr old"
    using old by (auto simp: load_checks_for_date_def content_def split: option.splits)
  have "strip ?line \<noteq> []"
    using nonblank by (auto simp: strip_empty_iff)
  moreover have "file_lines [] (content @ ?line) = file_lines [] content @ [?line]"
    using c lf cr by (simp add: file_lines_new_line complete_def)
  ultimately have "parse_lines loads (file_lines [] (content @ ?line)) = Inr (old @ [to_record r])"
    using before codec by (simp add: parse_lines_snoc)
  then show ?thesis
    by (simp add: load_checks_for_date_def save_check_checks content_def)
qed

lemma load_checks_other_date:
  "d \<noteq> today \<Longrightarrow>
   load_checks_for_date loads (save_check dumps today r st) d = load_checks_for_date loads st d"
  by (simp add: load_checks_for_date_def save_check_checks)


subsection \<open>The window\<close>


lemma date_of_yesterday: "date_of (now - us_per_day) = date_of now - 1"
  by (simp add: date_of_def us_per_day_def)

lemma load_recent_checks_eq:
  assumes "load_checks_for_date loads st (date_of now) = Inr day0"
    and "load_checks_for_date loads st (date_of now - 1) = Inr day1"
  shows "load_recent_checks loads st now hours =
           Inr (sorted_reverse c_checked_at
                  (filter (\<lambda>c. now - hours * us_per_hour \<le> c_checked_at c) (day0 @ day1)))"
  using assms by (simp add: load_recent_checks_def date_of_yesterday)



lemma set_sorted_reverse: "set (sorted_reverse k xs) = set xs"
  by (simp add: sorted_reverse_def)

lemma sorted_reverse_stable:
  "filter (\<lambda>x. k x = v) (sorted_reverse k xs) = filter (\<lambda>x. k x = v) xs"
  by (simp add: sorted_reverse_def rev_filter [symmetric] sort_key_stable)

subsection \<open>The examples, written and read\<close>

lemma example_texts:
  "check_text (to_record (timed_out 100)) = ''{https://a.example down 100}''"
  "check_text (to_record (answered 50 300)) = ''{https://a.example up 300}''"
  by (simp_all add: check_text_def to_record_def timed_out_def answered_def endpoint_A_def str_int_def)











subsection \<open>The claims on the check store\<close>

text \<open>
  Claim C7, as stated, fails: a result stamped 23:59:59 of day 0 (the day of its own
  timestamp) and saved when the date is day 1 is written to the file of day 1, and the
  file of day 0 is not created.
\<close>

theorem own_date_partition_counterexample:
  "date_of (checked_at (timed_out 86399000000)) = 0 \<and>
   checks (save_check check_text 1 (timed_out 86399000000) empty_storage) 0 = None \<and>
   checks (save_check check_text 1 (timed_out 86399000000) empty_storage) 1 =
     Some (''{https://a.example down 86399000000}'' @ [CHR 0x0A])"
  by (simp add: save_check_checks empty_storage_def timed_out_def endpoint_A_def date_of_def
      us_per_day_def to_record_def check_text_def str_int_def)

text \<open>
  Claim C7, amended. \<open>save_checks\<close> writes each result to the file named by the date that
  is current when that result is written, whatever the timestamp of the result: after the
  batch, the file of a date \<open>d\<close> is its old text followed by the lines of the results
  written on \<open>d\<close>, in the order of the batch; a date on which nothing was written keeps
  its file (or has none), and the incident files are untouched.
\<close>

theorem save_checks_partitions:
  "checks (save_checks dumps writes st) d =
     (if d \<in> fst ` set writes
      then Some ((case checks st d of None \<Rightarrow> [] | Some old \<Rightarrow> old) @
                 concat (map (\<lambda>(today, r). dumps (to_record r) @ [CHR 0x0A])
                           (filter (\<lambda>(today, r). today = d) writes)))
      else checks st d) \<and>
   incidents (save_checks dumps writes st) = incidents st"
  by (simp only: save_checks_checks save_checks_incidents simp_thms)

theorem save_checks_partitions_witness:
  "checks (save_checks check_text [(0, timed_out 100), (1, answered 50 300), (0, timed_out 200)]
             empty_storage) 0 =
     Some (''{https://a.example down 100}'' @ [CHR 0x0A] @ ''{https://a.example down 200}'' @ [CHR 0x0A]) \<and>
   checks (save_checks check_text [(0, timed_out 100), (1, answered 50 300), (0, timed_out 200)]
             empty_storage) 1 =
     Some (''{https://a.example up 300}'' @ [CHR 0x0A]) \<and>
   checks (save_checks check_text [(0, timed_out 100), (1, answered 50 300), (0, timed_out 200)]
             empty_storage) 2 = None"
proof -
  let ?writes = "[(0, timed_out 100), (1, answered 50 300), (0, timed_out 200)]"
  have t: "check_text (to_record (timed_out 200)) = ''{https://a.example down 200}''"
    by (simp add: check_text_def to_record_def timed_out_def endpoint_A_def str_int_def)
  have e: "checks empty_storage = Map.empty"
    by (simp add: empty_storage_def)
  have "checks (save_checks check_text ?writes empty_storage) 0 =
     Some (''{https://a.example down 100}'' @ [CHR 0x0A] @ ''{https://a.example down 200}'' @ [CHR 0x0A])"
    using save_checks_partitions [of check_text ?writes empty_storage 0]
    by (simp add: e example_texts t)
  moreover have "checks (save_checks check_text ?writes empty_storage) 1 =
     Some (''{https://a.example up 300}'' @ [CHR 0x0A])"
    using save_checks_partitions [of check_text ?writes empty_storage 1]
    by (simp add: e example_texts t)
  moreover have "checks (save_checks check_text ?writes empty_storage) 2 = None"
    using save_checks_partitions [of check_text ?writes empty_storage 2]
    by (simp add: e)
  ultimately show ?thesis by simp
qed



text \<open>
  The same through the window. \<open>load_recent_checks\<close> reads the files of the UTC date of
  \<open>now\<close> and of the date before; \<open>save_check\<close> writes the file of \<^verbatim>\<open>date.today()\<close>. When
  that date is one of the two and the timestamp of the result is not before the cutoff,
  the window read right after the write holds the record of the result.
\<close>

lemma save_check_then_window:
  assumes "load_checks_for_date loads st (date_of now) = Inr day0"
    and "load_checks_for_date loads st (date_of now - 1) = Inr day1"
    and "today = date_of now \<or> today = date_of now - 1"
    and "\<forall>content. checks st today = Some content \<longrightarrow> complete content"
    and "loads (dumps (to_record r) @ [CHR 0x0A]) = Some (to_record r)"
    and "CHR 0x0A \<notin> set (dumps (to_record r))"
    and "CHR 0x0D \<notin> set (dumps (to_record r))"
    and "\<exists>c \<in> set (dumps (to_record r)). \<not> isspace c"
    and "now - hours * us_per_hour \<le> checked_at r"
  shows "\<exists>window. load_recent_checks loads (save_check dumps today r st) now hours = Inr window \<and>
           to_record r \<in> set window"
proof -
  let ?st = "save_check dumps today r st"
  have ts: "now - hours * us_per_hour \<le> c_checked_at (to_record r)"
    using assms(9) by (simp add: to_record_def)
  from assms(3) show ?thesis
  proof
    assume t: "today = date_of now"
    have "load_checks_for_date loads ?st (date_of now) = Inr (day0 @ [to_record r])"
      using assms(1,4-8) unfolding t by (rule load_checks_after_save)
    moreover have "load_checks_for_date loads ?st (date_of now - 1) = Inr day1"
      using assms(2) by (simp add: load_checks_other_date t)
    ultimately show ?thesis
      using ts by (simp add: load_recent_checks_eq set_sorted_reverse)
  next
    assume t: "today = date_of now - 1"
    have "load_checks_for_date loads ?st (date_of now - 1) = Inr (day1 @ [to_record r])"
      using assms(2,4-8) unfolding t by (rule load_checks_after_save)
    moreover have "load_checks_for_date loads ?st (date_of now) = Inr day0"
      using assms(1) by (simp add: load_checks_other_date t)
    ultimately show ?thesis
      using ts by (simp add: load_recent_checks_eq set_sorted_reverse)
  qed
qed

text \<open>
  \<^verbatim>\<open>date.today()\<close> is the local date. When it is neither of the two dates that
  \<open>load_recent_checks\<close> derives from \<^verbatim>\<open>datetime.utcnow()\<close> (a local time zone ahead of UTC,
  between local midnight and UTC midnight), the result is written to a file the window
  does not read.
\<close>

lemma save_check_outside_window:
  assumes "checks st (date_of now) = None" and "checks st (date_of now - 1) = None"
    and "today \<noteq> date_of now" and "today \<noteq> date_of now - 1"
  shows "load_recent_checks loads (save_check dumps today r st) now hours = Inr []"
proof -
  have "load_checks_for_date loads (save_check dumps today r st) (date_of now) = Inr []"
    "load_checks_for_date loads (save_check dumps today r st) (date_of now - 1) = Inr []"
    using assms by (simp_all add: load_checks_for_date_def save_check_checks)
  then show ?thesis
    by (simp add: load_recent_checks_eq sorted_reverse_def)
qed




section \<open>The aggregator\<close>




section \<open>The check cycle\<close>

lemma extends_refl: "extends st st"
  by (simp add: extends_def)

lemma extends_trans: "extends a b \<Longrightarrow> extends b c \<Longrightarrow> extends a c"
  unfolding extends_def by (metis append.assoc)

lemma track_incident_extends:
  "track_incident dumps today r ist st = (ev, ist', st') \<Longrightarrow> extends st st'"
  by (auto simp: track_incident_def Let_def extends_def append_text_def
      split: option.splits if_splits)

lemma track_incident_persisted:
  "track_incident dumps today r ist st = (Some inc, ist', st') \<Longrightarrow> persisted dumps st' inc"
  by (auto simp: track_incident_def Let_def persisted_def append_text_def
      split: option.splits if_splits)

lemma track_incident_checks:
  "track_incident dumps today r ist st = (ev, ist', st') \<Longrightarrow> checks st' = checks st"
  by (auto simp: track_incident_def Let_def split: option.splits if_splits)

lemma track_and_notify_extends:
  "extends (files w) (files (track_and_notify dumps notify rs w))"
proof (induction rs arbitrary: w)
  case Nil
  then show ?case by (simp add: extends_refl)
next
  case (Cons x rs)
  obtain today r where x: "x = (today, r)" by (cases x)
  obtain ev ist st where t: "track_incident dumps today r (incident_state w) (files w) = (ev, ist, st)"
    by (cases "track_incident dumps today r (incident_state w) (files w)")
  have e: "extends (files w) st"
    using t by (rule track_incident_extends)
  show ?case
  proof (cases ev)
    case None
    have "extends st (files (track_and_notify dumps notify rs (w\<lparr>files := st, incident_state := ist\<rparr>)))"
      using Cons.IH [of "w\<lparr>files := st, incident_state := ist\<rparr>"] by simp
    with e show ?thesis
      using t None x by (auto intro: extends_trans)
  next
    case (Some inc)
    have "extends st (files (track_and_notify dumps notify rs
        (w\<lparr>files := st, incident_state := ist,
           notifier_calls := notifier_calls w @ [(inc, st, notify inc)]\<rparr>)))"
      using Cons.IH [of "w\<lparr>files := st, incident_state := ist,
           notifier_calls := notifier_calls w @ [(inc, st, notify inc)]\<rparr>"] by simp
    with e show ?thesis
      using t Some x by (auto intro: extends_trans)
  qed
qed

lemma track_and_notify_calls:
  "\<exists>new. notifier_calls (track_and_notify dumps notify rs w) = notifier_calls w @ new \<and>
     (\<forall>(inc, st, ok) \<in> set new.
        persisted dumps st inc \<and> extends st (files (track_and_notify dumps notify rs w)))"
proof (induction rs arbitrary: w)
  case Nil
  then show ?case by simp
next
  case (Cons x rs)
  obtain today r where x: "x = (today, r)" by (cases x)
  obtain ev ist st where t: "track_incident dumps today r (incident_state w) (files w) = (ev, ist, st)"
    by (cases "track_incident dumps today r (incident_state w) (files w)")
  show ?case
  proof (cases ev)
    case None
    let ?w1 = "w\<lparr>files := st, incident_state := ist\<rparr>"
    have step: "track_and_notify dumps notify (x # rs) w = track_and_notify dumps notify rs ?w1"
      using t None x by simp
    from Cons.IH [of ?w1] show ?thesis
      unfolding step by simp
  next
    case (Some inc)
    let ?w1 = "w\<lparr>files := st, incident_state := ist,
           notifier_calls := notifier_calls w @ [(inc, st, notify inc)]\<rparr>"
    have step: "track_and_notify dumps notify (x # rs) w = track_and_notify dumps notify rs ?w1"
      using t Some x by simp
    from Cons.IH [of ?w1] obtain new where new:
      "notifier_calls (track_and_notify dumps notify rs ?w1) = notifier_calls ?w1 @ new"
      "\<forall>(inc, st, ok) \<in> set new.
        persisted dumps st inc \<and> extends st (files (track_and_notify dumps notify rs ?w1))"
      by blast
    have p: "persisted dumps st inc"
      using t Some by (auto intro: track_incident_persisted)
    have e: "extends st (files (track_and_notify dumps notify rs ?w1))"
      using track_and_notify_extends [of ?w1 dumps notify rs] by simp
    show ?thesis
      unfolding step
      by (rule exI [of _ "(inc, st, notify inc) # new"]) (use new p e in auto)
  qed
qed

lemma track_and_notify_independent:
  "files w = files v \<Longrightarrow> incident_state w = incident_state v \<Longrightarrow>
   files (track_and_notify dumps notify rs w) = files (track_and_notify dumps notify' rs v) \<and>
   incident_state (track_and_notify dumps notify rs w) =
     incident_state (track_and_notify dumps notify' rs v) \<and>
   map fst (drop (length (notifier_calls w)) (notifier_calls (track_and_notify dumps notify rs w))) =
     map fst (drop (length (notifier_calls v)) (notifier_calls (track_and_notify dumps notify' rs v)))"
proof (induction rs arbitrary: w v)
  case Nil
  then show ?case by simp
next
  case (Cons x rs)
  obtain today r where x: "x = (today, r)" by (cases x)
  obtain ev ist st where t: "track_incident dumps today r (incident_state w) (files w) = (ev, ist, st)"
    by (cases "track_incident dumps today r (incident_state w) (files w)")
  then have t': "track_incident dumps today r (incident_state v) (files v) = (ev, ist, st)"
    using Cons.prems by simp
  show ?case
  proof (cases ev)
    case None
    show ?thesis
      using t t' None x
        Cons.IH [of "w\<lparr>files := st, incident_state := ist\<rparr>" "v\<lparr>files := st, incident_state := ist\<rparr>"]
      by simp
  next
    case (Some inc)
    let ?w1 = "w\<lparr>files := st, incident_state := ist,
           notifier_calls := notifier_calls w @ [(inc, st, notify inc)]\<rparr>"
    let ?v1 = "v\<lparr>files := st, incident_state := ist,
           notifier_calls := notifier_calls v @ [(inc, st, notify' inc)]\<rparr>"
    obtain nw where nw: "notifier_calls (track_and_notify dumps notify rs ?w1) = notifier_calls ?w1 @ nw"
      using track_and_notify_calls [of dumps notify rs ?w1] by blast
    obtain nv where nv: "notifier_calls (track_and_notify dumps notify' rs ?v1) = notifier_calls ?v1 @ nv"
      using track_and_notify_calls [of dumps notify' rs ?v1] by blast
    from Cons.IH [of ?w1 ?v1] show ?thesis
      using t t' Some x nw nv by simp
  qed
qed

lemma after_outage_eq:
  "after_outage =
     \<lparr>files = \<lparr>checks = [0 \<mapsto> ''{https://a.example down 100}'' @ [CHR 0x0A]], incidents = Map.empty\<rparr>,
      incident_state = [''https://a.example'' \<mapsto> \<lparr>t_status = ''down'', since = 100, notified = False\<rparr>],
      notifier_calls = []\<rparr>"
  by (simp add: after_outage_def run_checks_def check_all_def Let_def world0_def empty_storage_def
      save_check_def append_text_def track_incident_def endpoint_A_def to_record_def check_text_def
      str_int_def)

lemma after_recovery_calls:
  "notifier_calls after_recovery =
     [(\<lparr>i_url = ''https://a.example'', prev_status = ''down'', new_status = ''up'', changed_at = 300,
        was_down_since = Some 100, i_error = None\<rparr>,
       files after_recovery, False)]"
  by (simp add: after_recovery_def after_outage_eq run_checks_def check_all_def Let_def
      save_check_def append_text_def track_incident_def endpoint_A_def failing_notifier_def)

lemma after_recovery_incidents:
  "incidents (files after_recovery) = [0 \<mapsto> ''{https://a.example down up}'' @ [CHR 0x0A]]"
  by (simp add: after_recovery_def after_outage_eq run_checks_def check_all_def Let_def
      save_check_def append_text_def track_incident_def endpoint_A_def incident_text_def)

text \<open>
  Claim C9. In a check cycle, every call of the notifier finds its incident persisted:
  at the moment of the call an incident file ends with the line of that incident. The
  files at the end of the cycle extend the files of that moment, so the line is neither
  removed nor altered afterwards. What the notifier answers changes nothing: with any
  other notifier the cycle ends with the same files and the same tracked state, and hands
  over the same incidents in the same order.
\<close>

theorem incident_persisted_before_notification:
  "\<exists>new. notifier_calls (run_checks dumps_check dumps_incident notify endpoints obs save_day track_day w) =
           notifier_calls w @ new \<and>
     (\<forall>(inc, st, ok) \<in> set new.
        persisted dumps_incident st inc \<and>
        extends st (files (run_checks dumps_check dumps_incident notify endpoints obs save_day track_day w))) \<and>
     files (run_checks dumps_check dumps_incident notify endpoints obs save_day track_day w) =
       files (run_checks dumps_check dumps_incident notify' endpoints obs save_day track_day w) \<and>
     incident_state (run_checks dumps_check dumps_incident notify endpoints obs save_day track_day w) =
       incident_state (run_checks dumps_check dumps_incident notify' endpoints obs save_day track_day w) \<and>
     map fst new =
       map fst (drop (length (notifier_calls w))
         (notifier_calls (run_checks dumps_check dumps_incident notify' endpoints obs save_day track_day w)))"
proof (cases "endpoints = []")
  case True
  then show ?thesis by (simp add: run_checks_def)
next
  case False
  let ?results = "check_all endpoints obs"
  let ?w1 = "w\<lparr>files := save_checks dumps_check
                     (zip (map save_day [0..<length ?results]) ?results) (files w)\<rparr>"
  let ?rs = "zip (map track_day [0..<length ?results]) ?results"
  have run: "\<And>n. run_checks dumps_check dumps_incident n endpoints obs save_day track_day w =
      track_and_notify dumps_incident n ?rs ?w1"
    using False by (simp add: run_checks_def Let_def)
  obtain new where new:
    "notifier_calls (track_and_notify dumps_incident notify ?rs ?w1) = notifier_calls ?w1 @ new"
    "\<forall>(inc, st, ok) \<in> set new.
        persisted dumps_incident st inc \<and>
        extends st (files (track_and_notify dumps_incident notify ?rs ?w1))"
    using track_and_notify_calls [of dumps_incident notify ?rs ?w1] by blast
  have ind: "files (track_and_notify dumps_incident notify ?rs ?w1) =
      files (track_and_notify dumps_incident notify' ?rs ?w1)"
    "incident_state (track_and_notify dumps_incident notify ?rs ?w1) =
      incident_state (track_and_notify dumps_incident notify' ?rs ?w1)"
    "map fst (drop (length (notifier_calls ?w1)) (notifier_calls (track_and_notify dumps_incident notify ?rs ?w1))) =
     map fst (drop (length (notifier_calls ?w1)) (notifier_calls (track_and_notify dumps_incident notify' ?rs ?w1)))"
    using track_and_notify_independent [of ?w1 ?w1 dumps_incident notify ?rs notify'] by simp_all
  show ?thesis
    unfolding run
    by (rule exI [of _ new]) (use new ind in simp)
qed

theorem incident_persisted_before_notification_witness:
  "notifier_calls after_recovery =
     [(\<lparr>i_url = ''https://a.example'', prev_status = ''down'', new_status = ''up'', changed_at = 300,
        was_down_since = Some 100, i_error = None\<rparr>,
       files after_recovery, False)] \<and>
   persisted incident_text (files after_recovery)
     \<lparr>i_url = ''https://a.example'', prev_status = ''down'', new_status = ''up'', changed_at = 300,
        was_down_since = Some 100, i_error = None\<rparr> \<and>
   incidents (files after_recovery) = [0 \<mapsto> ''{https://a.example down up}'' @ [CHR 0x0A]] \<and>
   files after_recovery =
     files (run_checks check_text incident_text (\<lambda>inc. True) [endpoint_A]
              (\<lambda>i. (Response 200, 50, 300)) (\<lambda>i. 0) (\<lambda>i. 0) after_outage)"
proof -
  from incident_persisted_before_notification [of check_text incident_text failing_notifier
      "[endpoint_A]" "\<lambda>i. (Response 200, 50, 300)" "\<lambda>i. 0" "\<lambda>i. 0" after_outage "\<lambda>inc. True"]
  obtain new where new:
    "notifier_calls after_recovery = notifier_calls after_outage @ new"
    "\<forall>(inc, st, ok) \<in> set new. persisted incident_text st inc \<and> extends st (files after_recovery)"
    "files after_recovery =
       files (run_checks check_text incident_text (\<lambda>inc. True) [endpoint_A]
                (\<lambda>i. (Response 200, 50, 300)) (\<lambda>i. 0) (\<lambda>i. 0) after_outage)"
    unfolding after_recovery_def [symmetric] by blast
  from new(1) have "new = notifier_calls after_recovery"
    by (simp add: after_outage_eq)
  with new(2) have p: "persisted incident_text (files after_recovery)
     \<lparr>i_url = ''https://a.example'', prev_status = ''down'', new_status = ''up'', changed_at = 300,
        was_down_since = Some 100, i_error = None\<rparr>"
    by (simp add: after_recovery_calls)
  from after_recovery_calls p after_recovery_incidents new(3) show ?thesis
    by - (intro conjI, assumption+)
qed

end
